theory Spec2Isabelle
  imports Main
begin

section \<open>Makeline service: order intake and status pipeline\<close>

text \<open>
  A shallow embedding of the three request handlers of \<^verbatim>\<open>main.go\<close>
  (\<^verbatim>\<open>fetchOrders\<close>, \<^verbatim>\<open>getOrder\<close>, \<^verbatim>\<open>updateOrder\<close>) together with the
  \<^verbatim>\<open>strconv\<close> conversions they call. Logging (\<^verbatim>\<open>log.Printf\<close>) writes to the
  process log only and is left out; every other statement of a handler is a branch of
  its model.
\<close>

subsection \<open>Integer parsing and rendering (\<^verbatim>\<open>strconv\<close>)\<close>

text \<open>
  The handlers validate ids with \<^verbatim>\<open>strconv.Atoi\<close> and re-render them with
  \<^verbatim>\<open>strconv.Itoa\<close> / \<^verbatim>\<open>strconv.FormatInt\<close>. These belong to the Go standard library;
  they are modelled after its implementation for base 10 and a 64-bit \<^verbatim>\<open>int\<close>.
  A Go string is a sequence of bytes: \<^typ>\<open>string\<close> here, one \<^typ>\<open>char\<close> per byte.
\<close>

datatype NumError = ErrSyntax | ErrRange

definition byte_of :: "char \<Rightarrow> nat" where
  "byte_of c = of_char c"

text \<open>\<^verbatim>\<open>'0' <= c && c <= '9'\<close>\<close>

definition is_digit :: "char \<Rightarrow> bool" where
  "is_digit c = (48 \<le> byte_of c \<and> byte_of c \<le> 57)"

text \<open>\<^verbatim>\<open>d = c - '0'\<close>, used only under \<^const>\<open>is_digit\<close>.\<close>

definition digit_val :: "char \<Rightarrow> nat" where
  "digit_val c = byte_of c - 48"

definition maxUint64 :: nat where
  "maxUint64 = 2 ^ 64 - 1"

text \<open>
  The digit loop of \<^verbatim>\<open>ParseUint(s, 10, 64)\<close>. A byte that is not a decimal digit is a
  syntax error (a letter is a digit value of 10 or more, not below the base; an
  underscore is only read when the base is 0). \<^verbatim>\<open>n >= cutoff\<close> with
  \<^verbatim>\<open>cutoff = maxUint64/10 + 1\<close> and the wrap-around test \<^verbatim>\<open>n1 < n\<close> of the
  unsigned addition are range errors; on \<^typ>\<open>nat\<close> the wrap-around test reads
  \<open>maxUint64 < n1\<close>.
\<close>

fun ParseUint_loop :: "nat \<Rightarrow> string \<Rightarrow> NumError + nat" where
  "ParseUint_loop n [] = Inr n"
| "ParseUint_loop n (c # cs) =
     (if \<not> is_digit c then Inl ErrSyntax
      else if maxUint64 div 10 + 1 \<le> n then Inl ErrRange
      else (let n1 = n * 10 + digit_val c
            in if maxUint64 < n1 then Inl ErrRange else ParseUint_loop n1 cs))"

definition ParseUint :: "string \<Rightarrow> NumError + nat" where
  "ParseUint s = (if s = [] then Inl ErrSyntax else ParseUint_loop 0 s)"

text \<open>
  \<^verbatim>\<open>ParseInt(s, 10, 0)\<close>: an optional sign, then \<^verbatim>\<open>ParseUint\<close>, then the check
  against \<^verbatim>\<open>cutoff = 1 << 63\<close>. A range error of \<^verbatim>\<open>ParseUint\<close> stays a range error
  (the Go code carries on with the maximal value, which fails the cutoff test).
\<close>

definition ParseInt :: "string \<Rightarrow> NumError + int" where
  "ParseInt s =
     (case s of
        [] \<Rightarrow> Inl ErrSyntax
      | c # cs \<Rightarrow>
          (let neg = (c = CHR ''-'');
               ds = (if c = CHR ''+'' \<or> c = CHR ''-'' then cs else s)
           in case ParseUint ds of
                Inl e \<Rightarrow> Inl e
              | Inr un \<Rightarrow>
                  if \<not> neg \<and> 2 ^ 63 \<le> un then Inl ErrRange
                  else if neg \<and> 2 ^ 63 < un then Inl ErrRange
                  else Inr (if neg then - int un else int un)))"

text \<open>
  The fast path of \<^verbatim>\<open>Atoi\<close> for strings of 1 to 18 bytes: \<^verbatim>\<open>ch -= '0'\<close> is a byte
  subtraction that wraps around, so a byte below \<^verbatim>\<open>'0'\<close> becomes larger than 9.
\<close>

fun Atoi_loop :: "int \<Rightarrow> string \<Rightarrow> NumError + int" where
  "Atoi_loop n [] = Inr n"
| "Atoi_loop n (c # cs) =
     (let ch = (byte_of c + 256 - 48) mod 256
      in if 9 < ch then Inl ErrSyntax else Atoi_loop (n * 10 + int ch) cs)"

definition Atoi_fast :: "string \<Rightarrow> NumError + int" where
  "Atoi_fast s0 =
     (let s = (if hd s0 = CHR ''-'' \<or> hd s0 = CHR ''+'' then tl s0 else s0)
      in if length s < 1 then Inl ErrSyntax
         else (case Atoi_loop 0 s of
                 Inl e \<Rightarrow> Inl e
               | Inr n \<Rightarrow> Inr (if hd s0 = CHR ''-'' then - n else n)))"

definition Atoi :: "string \<Rightarrow> NumError + int" where
  "Atoi s = (if 0 < length s \<and> length s < 19 then Atoi_fast s else ParseInt s)"

text \<open>
  \<^verbatim>\<open>FormatInt(i, 10)\<close>: the decimal digits of the magnitude, most significant first,
  after a minus sign for a negative number. \<^verbatim>\<open>Itoa(i)\<close> is \<^verbatim>\<open>FormatInt(int64(i), 10)\<close>.
\<close>

definition digit_char :: "nat \<Rightarrow> char" where
  "digit_char d = char_of (48 + d)"

function formatBits :: "nat \<Rightarrow> string" where
  "formatBits u =
     (if u < 10 then [digit_char u] else formatBits (u div 10) @ [digit_char (u mod 10)])"
  by pat_completeness auto
termination
  by (relation "measure (\<lambda>u. u)") auto

declare formatBits.simps [simp del]

definition FormatInt :: "int \<Rightarrow> string" where
  "FormatInt i = (if i < 0 then CHR ''-'' # formatBits (nat (- i)) else formatBits (nat i))"

definition Itoa :: "int \<Rightarrow> string" where
  "Itoa i = FormatInt i"

text \<open>
  The value of a digit string, read left to right from an accumulator, and the shape
  \<^verbatim>\<open>[0-9]+\<close>; both are used to state what \<^const>\<open>Atoi\<close> accepts.
\<close>

definition dec_from :: "nat \<Rightarrow> string \<Rightarrow> nat" where
  "dec_from n ds = foldl (\<lambda>n c. n * 10 + digit_val c) n ds"

definition decimal_digits :: "string \<Rightarrow> bool" where
  "decimal_digits ds = (ds \<noteq> [] \<and> list_all is_digit ds)"

text \<open>
  An optional sign \<^verbatim>\<open>+\<close> or \<^verbatim>\<open>-\<close> followed by decimal digits whose signed value
  lies between \<open>- 2 ^ 63\<close> and \<open>2 ^ 63 - 1\<close>.
\<close>

definition signed_decimal_int64 :: "string \<Rightarrow> bool" where
  "signed_decimal_int64 s =
     (case s of
        [] \<Rightarrow> False
      | c # cs \<Rightarrow>
          if c = CHR ''-'' then decimal_digits cs \<and> dec_from 0 cs \<le> 2 ^ 63
          else if c = CHR ''+'' then decimal_digits cs \<and> dec_from 0 cs < 2 ^ 63
          else decimal_digits s \<and> dec_from 0 s < 2 ^ 63)"

subsection \<open>Order entity and repository interface\<close>

text \<open>
  Modelled from the spec: the \<^verbatim>\<open>Status\<close> type and the \<^verbatim>\<open>Order\<close> struct are declared
  outside \<^verbatim>\<open>main.go\<close>, which uses the constants
  \<^verbatim>\<open>Pending\<close>, \<^verbatim>\<open>Processing\<close>, \<^verbatim>\<open>Complete\<close> and the fields \<^verbatim>\<open>OrderID\<close> and
  \<^verbatim>\<open>Status\<close>, and prints a status with \<^verbatim>\<open>%d\<close>. The spec describes the status as an
  ordered, integer-backed enumeration of New, Pending, Processing, Complete, so a status
  is an integer and the four names are its first four values. The handlers only compare
  statuses for equality, so only the distinctness of the four values matters below.
  All other fields of an order are opaque to the handlers: \<open>Payload\<close>.
\<close>

type_synonym Status = int

definition New :: Status where "New = 0"
definition Pending :: Status where "Pending = 1"
definition Processing :: Status where "Processing = 2"
definition Complete :: Status where "Complete = 3"

record 'p Order =
  OrderID :: string
  Status :: Status
  Payload :: 'p

text \<open>
  Modelled from the spec: the repository interface behind \<^verbatim>\<open>client.repo\<close> is declared
  outside \<^verbatim>\<open>main.go\<close>. Its four methods are taken as parameters: functions on a
  storage state \<open>'db\<close> that return the Go result (\<open>None\<close> or \<open>Inr\<close> when the returned
  \<^verbatim>\<open>error\<close> is \<^verbatim>\<open>nil\<close>) and the storage state after the call. The error kinds are
  those of the spec's taxonomy; the handlers only test \<^verbatim>\<open>err != nil\<close>.
\<close>

datatype RepoError = NotFound | RepositoryError

datatype QueueError = QueueError

record ('db, 'p) OrderRepo =
  GetPendingOrders :: "'db \<Rightarrow> (RepoError + 'p Order list) \<times> 'db"
  GetOrder :: "string \<Rightarrow> 'db \<Rightarrow> (RepoError + 'p Order) \<times> 'db"
  InsertOrders :: "'p Order list \<Rightarrow> 'db \<Rightarrow> RepoError option \<times> 'db"
  UpdateOrder :: "'p Order \<Rightarrow> 'db \<Rightarrow> RepoError option \<times> 'db"

record ('db, 'p) OrderService =
  repo :: "('db, 'p) OrderRepo"

subsection \<open>Requests, responses and the observable state\<close>

text \<open>
  What a handler does to the outside is the HTTP response it produces, the sequence of
  repository methods it invokes (with their arguments) and the storage state it leaves.
\<close>

datatype 'p RepoCall =
    InsertOrdersCall "'p Order list"
  | GetPendingOrdersCall
  | GetOrderCall string
  | UpdateOrderCall "'p Order"

record ('db, 'p) World =
  calls :: "'p RepoCall list"
  db :: 'db

definition call_InsertOrders ::
  "('db, 'p) OrderService \<Rightarrow> 'p Order list \<Rightarrow> ('db, 'p) World \<Rightarrow>
     RepoError option \<times> ('db, 'p) World" where
  "call_InsertOrders client orders w =
     (case InsertOrders (repo client) orders (db w) of
        (err, db') \<Rightarrow> (err, \<lparr>calls = calls w @ [InsertOrdersCall orders], db = db'\<rparr>))"

definition call_GetPendingOrders ::
  "('db, 'p) OrderService \<Rightarrow> ('db, 'p) World \<Rightarrow>
     (RepoError + 'p Order list) \<times> ('db, 'p) World" where
  "call_GetPendingOrders client w =
     (case GetPendingOrders (repo client) (db w) of
        (res, db') \<Rightarrow> (res, \<lparr>calls = calls w @ [GetPendingOrdersCall], db = db'\<rparr>))"

definition call_GetOrder ::
  "('db, 'p) OrderService \<Rightarrow> string \<Rightarrow> ('db, 'p) World \<Rightarrow>
     (RepoError + 'p Order) \<times> ('db, 'p) World" where
  "call_GetOrder client ident w =
     (case GetOrder (repo client) ident (db w) of
        (res, db') \<Rightarrow> (res, \<lparr>calls = calls w @ [GetOrderCall ident], db = db'\<rparr>))"

definition call_UpdateOrder ::
  "('db, 'p) OrderService \<Rightarrow> 'p Order \<Rightarrow> ('db, 'p) World \<Rightarrow>
     RepoError option \<times> ('db, 'p) World" where
  "call_UpdateOrder client order w =
     (case UpdateOrder (repo client) order (db w) of
        (err, db') \<Rightarrow> (err, \<lparr>calls = calls w @ [UpdateOrderCall order], db = db'\<rparr>))"

text \<open>
  The part of \<^verbatim>\<open>gin.Context\<close> the handlers read: the values set by middleware
  (\<^verbatim>\<open>c.Set\<close> / \<^verbatim>\<open>c.MustGet\<close>), the path parameters (\<^verbatim>\<open>c.Param\<close>) and the outcome of
  \<^verbatim>\<open>c.BindJSON(&order)\<close>, \<open>None\<close> when the body does not bind to an order.
  A context value is either a \<^verbatim>\<open>*OrderService\<close> or a value of some other type, on
  which the type assertion of the handlers fails.
\<close>

datatype ('db, 'p) ContextValue =
    OrderServiceValue "('db, 'p) OrderService"
  | OtherValue

record ('db, 'p) Context =
  Keys :: "string \<rightharpoonup> ('db, 'p) ContextValue"
  Params :: "string \<rightharpoonup> string"
  Body :: "'p Order option"

text \<open>\<^verbatim>\<open>c.Param(key)\<close> is the empty string when the route has no such parameter.\<close>

definition Param :: "('db, 'p) Context \<Rightarrow> string \<Rightarrow> string" where
  "Param c key = (case Params c key of None \<Rightarrow> [] | Some v \<Rightarrow> v)"

text \<open>
  How a handler ends: \<^verbatim>\<open>c.AbortWithStatus(code)\<close>, \<^verbatim>\<open>c.Status(code)\<close> with an empty
  body, \<^verbatim>\<open>c.IndentedJSON(code, obj)\<close>, or the panic of \<^verbatim>\<open>c.MustGet\<close> on a key that
  was never set.
\<close>

datatype 'b Response =
    AbortWithStatus nat
  | StatusCode nat
  | IndentedJSON nat 'b
  | Panic

definition StatusOK :: nat where "StatusOK = 200"
definition StatusAccepted :: nat where "StatusAccepted = 202"
definition StatusBadRequest :: nat where "StatusBadRequest = 400"
definition StatusInternalServerError :: nat where "StatusInternalServerError = 500"

subsection \<open>The handlers of \<^verbatim>\<open>main.go\<close>\<close>

text \<open>
  \<^verbatim>\<open>OrderMiddleware\<close> stores the service under the key \<^verbatim>\<open>"orderService"\<close> and runs
  the rest of the chain (\<^verbatim>\<open>c.Next()\<close>).
\<close>

definition OrderMiddleware ::
  "('db, 'p) OrderService \<Rightarrow> (('db, 'p) Context \<Rightarrow> 'r) \<Rightarrow> ('db, 'p) Context \<Rightarrow> 'r" where
  "OrderMiddleware orderService handler c =
     handler (c\<lparr>Keys := (Keys c)(''orderService'' \<mapsto> OrderServiceValue orderService)\<rparr>)"

text \<open>
  \<^verbatim>\<open>for i := range newOrders { newOrders[i].Status = Pending }\<close>: the indices run over
  the slice, each step overwrites one element in place.
\<close>

definition set_all_Pending :: "'p Order list \<Rightarrow> 'p Order list" where
  "set_all_Pending newOrders =
     fold (\<lambda>i os. os[i := (os ! i)\<lparr>Status := Pending\<rparr>]) [0..<length newOrders] newOrders"

text \<open>
  \<^verbatim>\<open>fetchOrders\<close>. The result of \<^verbatim>\<open>getOrdersFromQueue()\<close>, a function defined outside
  \<^verbatim>\<open>main.go\<close>, is a parameter: the batch it delivered or its error.
\<close>

definition fetchOrders ::
  "QueueError + 'p Order list \<Rightarrow> ('db, 'p) Context \<Rightarrow> ('db, 'p) World \<Rightarrow>
     'p Order list Response \<times> ('db, 'p) World" where
  "fetchOrders getOrdersFromQueue c w =
     (case Keys c ''orderService'' of
        None \<Rightarrow> (Panic, w)
      | Some OtherValue \<Rightarrow> (AbortWithStatus StatusInternalServerError, w)
      | Some (OrderServiceValue client) \<Rightarrow>
          (case getOrdersFromQueue of
             Inl err \<Rightarrow> (AbortWithStatus StatusInternalServerError, w)
           | Inr pulled \<Rightarrow>
               (let newOrders = set_all_Pending pulled
                in case (if 0 < length newOrders then call_InsertOrders client newOrders w
                         else (None, w)) of
                     (Some err, w1) \<Rightarrow> (AbortWithStatus StatusInternalServerError, w1)
                   | (None, w1) \<Rightarrow>
                       (case call_GetPendingOrders client w1 of
                          (Inl err, w2) \<Rightarrow> (AbortWithStatus StatusInternalServerError, w2)
                        | (Inr pendingOrders, w2) \<Rightarrow>
                            (IndentedJSON StatusOK pendingOrders, w2)))))"

text \<open>\<^verbatim>\<open>getOrder\<close>; \<^verbatim>\<open>int64(id)\<close> is the identity on a 64-bit \<^verbatim>\<open>int\<close>.\<close>

definition getOrder ::
  "('db, 'p) Context \<Rightarrow> ('db, 'p) World \<Rightarrow> 'p Order Response \<times> ('db, 'p) World" where
  "getOrder c w =
     (case Keys c ''orderService'' of
        None \<Rightarrow> (Panic, w)
      | Some OtherValue \<Rightarrow> (AbortWithStatus StatusInternalServerError, w)
      | Some (OrderServiceValue client) \<Rightarrow>
          (case Atoi (Param c ''id'') of
             Inl err \<Rightarrow> (AbortWithStatus StatusBadRequest, w)
           | Inr ident \<Rightarrow>
               (let sanitizedOrderId = FormatInt ident
                in case call_GetOrder client sanitizedOrderId w of
                     (Inl err, w1) \<Rightarrow> (AbortWithStatus StatusInternalServerError, w1)
                   | (Inr order, w1) \<Rightarrow> (IndentedJSON StatusOK order, w1))))"

text \<open>\<^verbatim>\<open>updateOrder\<close>\<close>

definition updateOrder ::
  "('db, 'p) Context \<Rightarrow> ('db, 'p) World \<Rightarrow> unit Response \<times> ('db, 'p) World" where
  "updateOrder c w =
     (case Keys c ''orderService'' of
        None \<Rightarrow> (Panic, w)
      | Some OtherValue \<Rightarrow> (AbortWithStatus StatusInternalServerError, w)
      | Some (OrderServiceValue client) \<Rightarrow>
          (case Body c of
             None \<Rightarrow> (AbortWithStatus StatusBadRequest, w)
           | Some order \<Rightarrow>
               if OrderID order = [] then (AbortWithStatus StatusBadRequest, w)
               else if Status order \<noteq> Processing \<and> Status order \<noteq> Complete
                 then (AbortWithStatus StatusBadRequest, w)
               else (case Atoi (OrderID order) of
                       Inl err \<Rightarrow> (AbortWithStatus StatusBadRequest, w)
                     | Inr ident \<Rightarrow>
                         (let order' = order\<lparr>OrderID := Itoa ident\<rparr>
                          in case call_UpdateOrder client order' w of
                               (Some err, w1) \<Rightarrow> (AbortWithStatus StatusInternalServerError, w1)
                             | (None, w1) \<Rightarrow> (StatusCode StatusAccepted, w1)))))"

text \<open>
  The routes as \<^verbatim>\<open>main\<close> registers them: every handler runs behind
  \<^verbatim>\<open>OrderMiddleware(orderService)\<close>, on a request that has made no repository call yet.
\<close>

definition GET_order_fetch ::
  "('db, 'p) OrderService \<Rightarrow> QueueError + 'p Order list \<Rightarrow> ('db, 'p) Context \<Rightarrow> 'db \<Rightarrow>
     'p Order list Response \<times> ('db, 'p) World" where
  "GET_order_fetch orderService getOrdersFromQueue c d =
     OrderMiddleware orderService (fetchOrders getOrdersFromQueue) c \<lparr>calls = [], db = d\<rparr>"

definition GET_order_id ::
  "('db, 'p) OrderService \<Rightarrow> ('db, 'p) Context \<Rightarrow> 'db \<Rightarrow>
     'p Order Response \<times> ('db, 'p) World" where
  "GET_order_id orderService c d =
     OrderMiddleware orderService getOrder c \<lparr>calls = [], db = d\<rparr>"

definition PUT_order ::
  "('db, 'p) OrderService \<Rightarrow> ('db, 'p) Context \<Rightarrow> 'db \<Rightarrow>
     unit Response \<times> ('db, 'p) World" where
  "PUT_order orderService c d =
     OrderMiddleware orderService updateOrder c \<lparr>calls = [], db = d\<rparr>"

subsection \<open>The storage backends\<close>

text \<open>
  Modelled from the spec: the two repository implementations (the document store and
  the partitioned store) are not in \<^verbatim>\<open>main.go\<close>; this subsection is their contract
  as sections 4.1 to 4.3 of the spec word it. A backend keeps a collection of stored
  records, each an order together with the partition field the partitioned backend
  writes on it (the configured key name and value). The underlying store refuses to
  create a record whose order id is already present (the duplicate-key condition) and
  fails altogether when it cannot be reached.
\<close>

datatype Backend = DocumentStore | PartitionedStore string string

record 'p StoredRecord =
  doc :: "'p Order"
  partitionField :: "(string \<times> string) option"

record 'p Store =
  records :: "'p StoredRecord list"
  available :: bool

datatype StoreError = DuplicateKey | Unavailable

definition partition_of :: "Backend \<Rightarrow> (string \<times> string) option" where
  "partition_of b =
     (case b of DocumentStore \<Rightarrow> None
      | PartitionedStore partitionKey partitionValue \<Rightarrow> Some (partitionKey, partitionValue))"

definition to_record :: "Backend \<Rightarrow> 'p Order \<Rightarrow> 'p StoredRecord" where
  "to_record b x = \<lparr>doc = x, partitionField = partition_of b\<rparr>"

definition stored_ids :: "'p Store \<Rightarrow> string list" where
  "stored_ids s = map (\<lambda>r. OrderID (doc r)) (records s)"

definition store_create :: "'p StoredRecord \<Rightarrow> 'p Store \<Rightarrow> StoreError + 'p Store" where
  "store_create r s =
     (if \<not> available s then Inl Unavailable
      else if OrderID (doc r) \<in> set (stored_ids s) then Inl DuplicateKey
      else Inr (s\<lparr>records := records s @ [r]\<rparr>))"

text \<open>
  Modelled from the spec: \<open>insertOrders\<close> of section 4.1 with the idempotent insert
  policy of section 4.3, one create per order of the batch, in order. A duplicate key is
  success with no effect for that record; any other failure of the store fails the
  call, and the records created before it stay. An empty batch is a no-op.
\<close>

fun insertOrders ::
  "Backend \<Rightarrow> 'p Order list \<Rightarrow> 'p Store \<Rightarrow> RepoError option \<times> 'p Store" where
  "insertOrders b [] s = (None, s)"
| "insertOrders b (x # xs) s =
     (case store_create (to_record b x) s of
        Inr s' \<Rightarrow> insertOrders b xs s'
      | Inl DuplicateKey \<Rightarrow> insertOrders b xs s
      | Inl Unavailable \<Rightarrow> (Some RepositoryError, s))"

text \<open>
  Modelled from the spec: the three other methods of section 4.1. Queries see the
  records of the backend's own partition; \<open>getPendingOrders\<close> returns the orders whose
  status is Pending, \<open>getOrder\<close> the order stored under an id or \<open>NotFound\<close>, and
  \<open>updateOrder\<close> replaces the order stored under the id of its argument or fails with
  \<open>NotFound\<close>. (\<open>getOrder\<close> and \<open>updateOrder\<close> carry the suffix \<open>_backend\<close> here, the
  handlers of \<^verbatim>\<open>main.go\<close> having the same names.)
\<close>

definition scoped :: "Backend \<Rightarrow> 'p Store \<Rightarrow> 'p StoredRecord list" where
  "scoped b s = filter (\<lambda>r. partitionField r = partition_of b) (records s)"

definition getPendingOrders ::
  "Backend \<Rightarrow> 'p Store \<Rightarrow> (RepoError + 'p Order list) \<times> 'p Store" where
  "getPendingOrders b s =
     (if \<not> available s then (Inl RepositoryError, s)
      else (Inr (filter (\<lambda>x. Status x = Pending) (map doc (scoped b s))), s))"

definition getOrder_backend ::
  "Backend \<Rightarrow> string \<Rightarrow> 'p Store \<Rightarrow> (RepoError + 'p Order) \<times> 'p Store" where
  "getOrder_backend b ident s =
     (if \<not> available s then (Inl RepositoryError, s)
      else (case find (\<lambda>r. OrderID (doc r) = ident) (scoped b s) of
              None \<Rightarrow> (Inl NotFound, s)
            | Some r \<Rightarrow> (Inr (doc r), s)))"

definition updateOrder_backend ::
  "Backend \<Rightarrow> 'p Order \<Rightarrow> 'p Store \<Rightarrow> RepoError option \<times> 'p Store" where
  "updateOrder_backend b x s =
     (if \<not> available s then (Some RepositoryError, s)
      else if find (\<lambda>r. OrderID (doc r) = OrderID x) (scoped b s) = None then (Some NotFound, s)
      else (None, s\<lparr>records :=
              map (\<lambda>r. if OrderID (doc r) = OrderID x \<and> partitionField r = partition_of b
                        then r\<lparr>doc := x\<rparr> else r) (records s)\<rparr>))"

text \<open>
  Modelled from the spec: a backend as an instance of the repository interface that the
  handlers call.
\<close>

definition backend_repo :: "Backend \<Rightarrow> ('p Store, 'p) OrderRepo" where
  "backend_repo b =
     \<lparr>GetPendingOrders = getPendingOrders b,
      GetOrder = getOrder_backend b,
      InsertOrders = insertOrders b,
      UpdateOrder = updateOrder_backend b\<rparr>"

text \<open>The invariant of a store, and the number of records stored under an id.\<close>

definition unique_ids :: "'p Store \<Rightarrow> bool" where
  "unique_ids s = distinct (stored_ids s)"

definition count_id :: "string \<Rightarrow> 'p Store \<Rightarrow> nat" where
  "count_id ident s = length (filter (\<lambda>i. i = ident) (stored_ids s))"

subsection \<open>Example requests\<close>

text \<open>
  Shorthands for the concrete requests on which the theorems below are instantiated:
  orders without payload, served by the document-store backend.
\<close>

abbreviation example_service :: "(unit Store, unit) OrderService" where
  "example_service \<equiv> \<lparr>repo = backend_repo DocumentStore\<rparr>"

abbreviation example_order :: "string \<Rightarrow> Status \<Rightarrow> unit Order" where
  "example_order ident st \<equiv> \<lparr>OrderID = ident, Status = st, Payload = ()\<rparr>"

abbreviation example_store :: "unit Order list \<Rightarrow> unit Store" where
  "example_store xs \<equiv>
     \<lparr>records = map (\<lambda>x. \<lparr>doc = x, partitionField = None\<rparr>) xs, available = True\<rparr>"

abbreviation put_request :: "unit Order \<Rightarrow> (unit Store, unit) Context" where
  "put_request x \<equiv> \<lparr>Keys = Map.empty, Params = Map.empty, Body = Some x\<rparr>"

abbreviation get_request :: "string \<Rightarrow> (unit Store, unit) Context" where
  "get_request ident \<equiv> \<lparr>Keys = Map.empty, Params = [''id'' \<mapsto> ident], Body = None\<rparr>"

abbreviation fetch_request :: "(unit Store, unit) Context" where
  "fetch_request \<equiv> \<lparr>Keys = Map.empty, Params = Map.empty, Body = None\<rparr>"

section \<open>Properties of the conversions\<close>

lemma dec_from_Nil [simp]: "dec_from n [] = n"
  by (simp add: dec_from_def)

lemma dec_from_Cons [simp]: "dec_from n (c # cs) = dec_from (n * 10 + digit_val c) cs"
  by (simp add: dec_from_def)

lemma byte_of_less: "byte_of c < 256"
  by (simp add: byte_of_def)

lemma dec_from_mono: "n \<le> dec_from n ds"
proof (induction ds arbitrary: n)
  case Nil
  show ?case by simp
next
  case (Cons c cs)
  have "n \<le> n * 10 + digit_val c" by simp
  also have "\<dots> \<le> dec_from (n * 10 + digit_val c) cs" by (rule Cons.IH)
  finally show ?case by simp
qed

lemma digit_val_le: "is_digit c \<Longrightarrow> digit_val c \<le> 9"
  by (auto simp: is_digit_def digit_val_def)

lemma dec_from_bound:
  "list_all is_digit ds \<Longrightarrow> dec_from n ds < (n + 1) * 10 ^ length ds"
proof (induction ds arbitrary: n)
  case Nil
  show ?case by simp
next
  case (Cons c cs)
  then have d: "digit_val c \<le> 9" and cs: "list_all is_digit cs"
    by (simp_all add: digit_val_le)
  have "dec_from (n * 10 + digit_val c) cs < (n * 10 + digit_val c + 1) * 10 ^ length cs"
    by (rule Cons.IH [OF cs])
  also have "\<dots> \<le> ((n + 1) * 10) * 10 ^ length cs"
    using d by (intro mult_right_mono) simp_all
  also have "\<dots> = (n + 1) * 10 ^ length (c # cs)" by (simp add: algebra_simps)
  finally show ?case by simp
qed

lemma ParseUint_loop_Inr_iff:
  "n \<le> maxUint64 \<Longrightarrow>
   ParseUint_loop n ds = Inr m \<longleftrightarrow>
     list_all is_digit ds \<and> m = dec_from n ds \<and> m \<le> maxUint64"
proof (induction ds arbitrary: n)
  case Nil
  then show ?case by auto
next
  case (Cons c cs)
  let ?n1 = "n * 10 + digit_val c"
  have up: "?n1 \<le> dec_from ?n1 cs" by (rule dec_from_mono)
  show ?case
  proof (cases "is_digit c")
    case False
    then show ?thesis by simp
  next
    case dig: True
    show ?thesis
    proof (cases "maxUint64 div 10 + 1 \<le> n")
      case True
      then have "maxUint64 < ?n1" by (simp add: maxUint64_def)
      with up dig True show ?thesis by auto
    next
      case small: False
      show ?thesis
      proof (cases "maxUint64 < ?n1")
        case True
        with up dig small show ?thesis by (auto simp: Let_def)
      next
        case False
        then have "?n1 \<le> maxUint64" by simp
        from Cons.IH [OF this] dig small False show ?thesis
          by (simp add: Let_def)
      qed
    qed
  qed
qed

lemma wrap_digit: "((byte_of c + 256 - 48) mod 256 \<le> 9) = is_digit c"
  using byte_of_less [of c] 
  by (auto simp: is_digit_def mod_if  split: if_splits)

lemma wrap_digit_val: "is_digit c \<Longrightarrow> (byte_of c + 256 - 48) mod 256 = digit_val c"
  using byte_of_less [of c] 
  by (auto simp: is_digit_def digit_val_def mod_if)

text \<open>On digit strings that cannot overflow, the two digit loops agree.\<close>

lemma Atoi_loop_ParseUint_loop:
  "(n + 1) * 10 ^ length ds \<le> 2 ^ 64 \<Longrightarrow>
   Atoi_loop (int n) ds = map_sum id int (ParseUint_loop n ds)"
proof (induction ds arbitrary: n)
  case Nil
  show ?case by simp
next
  case (Cons c cs)
  show ?case
  proof (cases "is_digit c")
    case False
    then show ?thesis using wrap_digit [of c] by (simp add: Let_def)
  next
    case True
    let ?n1 = "n * 10 + digit_val c"
    have d: "digit_val c \<le> 9" using True by (rule digit_val_le)
    have "(n + 1) * 10 * 10 ^ length cs = (n + 1) * 10 ^ length (c # cs)"
      by (simp add: algebra_simps)
    with Cons.prems have b: "(n + 1) * 10 * 10 ^ length cs \<le> 2 ^ 64"
      by (simp only:)
    have "(?n1 + 1) * 10 ^ length cs \<le> (n + 1) * 10 * 10 ^ length cs"
      using d by (intro mult_right_mono) simp_all
    then have b1: "(?n1 + 1) * 10 ^ length cs \<le> 2 ^ 64" using b by (rule order_trans)
    have "(n + 1) * 10 * 1 \<le> (n + 1) * 10 * 10 ^ length cs"
      by (intro mult_left_mono) simp_all
    then have "(n + 1) * 10 \<le> (n + 1) * 10 * 10 ^ length cs" by (simp only: mult_1_right)
    then have n10: "(n + 1) * 10 \<le> 2 ^ 64" using b by (rule order_trans)
    then have small: "\<not> maxUint64 div 10 + 1 \<le> n" and fit: "\<not> maxUint64 < ?n1"
      using d by (simp_all add: maxUint64_def)
    have "Atoi_loop (int n) (c # cs) = Atoi_loop (int ?n1) cs"
      using True wrap_digit [of c] wrap_digit_val [of c] by (simp add: Let_def)
    also have "\<dots> = map_sum id int (ParseUint_loop ?n1 cs)"
      by (rule Cons.IH [OF b1])
    also have "\<dots> = map_sum id int (ParseUint_loop n (c # cs))"
      using True small fit by (simp add: Let_def)
    finally show ?thesis .
  qed
qed

lemma pow10_le: "k \<le> 18 \<Longrightarrow> (10::nat) ^ k \<le> 10 ^ 18"
  by (rule power_increasing) simp_all

lemma short_digits_fit:
  assumes "length ds \<le> 18"
  shows "(0 + 1) * 10 ^ length ds \<le> (2::nat) ^ 64"
proof -
  have "(10::nat) ^ length ds \<le> 10 ^ 18" using assms by (rule pow10_le)
  also have "\<dots> \<le> 2 ^ 64" by simp
  finally show ?thesis by simp
qed

lemma short_digits_value:
  assumes "length ds \<le> 18" and "list_all is_digit ds"
  shows "dec_from 0 ds < 2 ^ 63"
proof -
  have "dec_from 0 ds < (0 + 1) * 10 ^ length ds"
    using assms(2) by (rule dec_from_bound)
  also have "\<dots> \<le> 10 ^ 18" using pow10_le [OF assms(1)] by simp
  also have "\<dots> < (2::nat) ^ 63" by simp
  finally show ?thesis .
qed

lemma Atoi_loop_short:
  assumes "length ds \<le> 18"
  shows "Atoi_loop 0 ds = map_sum id int (ParseUint_loop 0 ds)"
  using Atoi_loop_ParseUint_loop [OF short_digits_fit [OF assms]] by simp

lemma ParseUint_loop_short:
  assumes "length ds \<le> 18" and "ParseUint_loop 0 ds = Inr un"
  shows "un < 2 ^ 63"
proof -
  have "(0::nat) \<le> maxUint64" by simp
  from ParseUint_loop_Inr_iff [OF this, of ds un] assms(2)
  have "list_all is_digit ds" and "un = dec_from 0 ds" by simp_all
  with short_digits_value [OF assms(1)] show ?thesis by simp
qed

lemma Atoi_fast_eq_ParseInt:
  assumes "0 < length s" and "length s < 19"
  shows "Atoi_fast s = ParseInt s"
proof -
  from assms(1) obtain c cs where s: "s = c # cs" by (cases s) auto
  show ?thesis
  proof (cases "c = CHR ''-'' \<or> c = CHR ''+''")
    case sign: True
    show ?thesis
    proof (cases "cs = []")
      case True
      with s sign show ?thesis
        by (auto simp: Atoi_fast_def ParseInt_def ParseUint_def)
    next
      case False
      have len: "length cs \<le> 18" using assms(2) s by simp
      show ?thesis
      proof (cases "ParseUint_loop 0 cs")
        case (Inl e)
        with s sign False Atoi_loop_short [OF len] show ?thesis
          by (auto simp: Atoi_fast_def ParseInt_def ParseUint_def)
      next
        case (Inr un)
        with ParseUint_loop_short [OF len] have "un < 2 ^ 63" by simp
        with Inr s sign False Atoi_loop_short [OF len] show ?thesis
          by (auto simp: Atoi_fast_def ParseInt_def ParseUint_def)
      qed
    qed
  next
    case nosign: False
    have len: "length s \<le> 18" using assms(2) by simp
    show ?thesis
    proof (cases "ParseUint_loop 0 s")
      case (Inl e)
      with s nosign Atoi_loop_short [OF len] show ?thesis
        by (auto simp: Atoi_fast_def ParseInt_def ParseUint_def)
    next
      case (Inr un)
      with ParseUint_loop_short [OF len] have "un < 2 ^ 63" by simp
      with Inr s nosign Atoi_loop_short [OF len] show ?thesis
        by (auto simp: Atoi_fast_def ParseInt_def ParseUint_def)
    qed
  qed
qed

lemma Atoi_eq_ParseInt: "Atoi s = ParseInt s"
  by (simp add: Atoi_def Atoi_fast_eq_ParseInt)

lemma is_digit_not_sign: "is_digit c \<Longrightarrow> c \<noteq> CHR ''-'' \<and> c \<noteq> CHR ''+''"
  by (auto simp: is_digit_def byte_of_def)

lemma ParseUint_Inr_iff:
  "ParseUint ds = Inr m \<longleftrightarrow> decimal_digits ds \<and> m = dec_from 0 ds \<and> m \<le> maxUint64"
proof -
  have "(0::nat) \<le> maxUint64" by simp
  from ParseUint_loop_Inr_iff [OF this, of ds m] show ?thesis
    by (auto simp: ParseUint_def decimal_digits_def)
qed

lemma ParseInt_Inr_iff:
  "ParseInt s = Inr v \<longleftrightarrow>
     (\<exists>ds. decimal_digits ds \<and>
        ((s = ds \<or> s = CHR ''+'' # ds) \<and> v = int (dec_from 0 ds) \<and> dec_from 0 ds < 2 ^ 63
         \<or> s = CHR ''-'' # ds \<and> v = - int (dec_from 0 ds) \<and> dec_from 0 ds \<le> 2 ^ 63))"
  (is "?L \<longleftrightarrow> ?R")
proof
  assume L: ?L
  then obtain c cs where s: "s = c # cs" by (cases s) (auto simp: ParseInt_def)
  let ?ds = "if c = CHR ''+'' \<or> c = CHR ''-'' then cs else s"
  from L s obtain un where un: "ParseUint ?ds = Inr un"
    by (cases "ParseUint ?ds") (auto simp: ParseInt_def Let_def)
  then have dd: "decimal_digits ?ds" and v: "un = dec_from 0 ?ds"
    by (simp_all add: ParseUint_Inr_iff)
  from L s un v have
    "(c = CHR ''-'' \<and> v = - int (dec_from 0 ?ds) \<and> dec_from 0 ?ds \<le> 2 ^ 63) \<or>
     (c \<noteq> CHR ''-'' \<and> v = int (dec_from 0 ?ds) \<and> dec_from 0 ?ds < 2 ^ 63)"
    by (auto simp: ParseInt_def Let_def split: if_splits)
  with dd s show ?R
    by (intro exI [of _ ?ds]) (auto split: if_splits)
next
  assume ?R
  then obtain ds where dd: "decimal_digits ds" and
    alt: "(s = ds \<or> s = CHR ''+'' # ds) \<and> v = int (dec_from 0 ds) \<and> dec_from 0 ds < 2 ^ 63
         \<or> s = CHR ''-'' # ds \<and> v = - int (dec_from 0 ds) \<and> dec_from 0 ds \<le> 2 ^ 63"
    by blast
  from dd obtain d ds' where ds: "ds = d # ds'" and d: "is_digit d"
    by (cases ds) (auto simp: decimal_digits_def)
  note ns = is_digit_not_sign [OF d]
  have small: "dec_from 0 ds \<le> 2 ^ 63 \<Longrightarrow> ParseUint ds = Inr (dec_from 0 ds)"
    using dd by (simp add: ParseUint_Inr_iff maxUint64_def)
  from alt show ?L
  proof (elim disjE conjE)
    assume "s = ds" "v = int (dec_from 0 ds)" "dec_from 0 ds < 2 ^ 63"
    with small ds ns show ?L by (simp add: ParseInt_def)
  next
    assume "s = CHR ''+'' # ds" "v = int (dec_from 0 ds)" "dec_from 0 ds < 2 ^ 63"
    with small show ?L by (simp add: ParseInt_def)
  next
    assume "s = CHR ''-'' # ds" "v = - int (dec_from 0 ds)" "dec_from 0 ds \<le> 2 ^ 63"
    with small show ?L by (simp add: ParseInt_def)
  qed
qed

lemma digit_char_is_digit: "d < 10 \<Longrightarrow> is_digit (digit_char d)"
  by (simp add: is_digit_def digit_char_def byte_of_def of_char_of)

lemma digit_val_digit_char: "d < 10 \<Longrightarrow> digit_val (digit_char d) = d"
  by (simp add: digit_val_def digit_char_def byte_of_def of_char_of)

lemma dec_from_snoc: "dec_from n (ds @ [c]) = dec_from n ds * 10 + digit_val c"
  by (simp add: dec_from_def)

lemma formatBits_digits: "list_all is_digit (formatBits u) \<and> formatBits u \<noteq> []"
proof (induction u rule: formatBits.induct)
  case (1 u)
  show ?case
  proof (cases "u < 10")
    case True
    then show ?thesis by (simp add: formatBits.simps digit_char_is_digit)
  next
    case False
    with "1" have "list_all is_digit (formatBits (u div 10))" by simp
    with False show ?thesis
      by (subst (1 2) formatBits.simps) (simp add: digit_char_is_digit)
  qed
qed

lemma dec_from_formatBits: "dec_from 0 (formatBits u) = u"
proof (induction u rule: formatBits.induct)
  case (1 u)
  show ?case
  proof (cases "u < 10")
    case True
    then show ?thesis by (simp add: formatBits.simps digit_val_digit_char)
  next
    case False
    with "1" have "dec_from 0 (formatBits (u div 10)) = u div 10" by simp
    with False show ?thesis
      by (subst formatBits.simps) (simp add: dec_from_snoc digit_val_digit_char)
  qed
qed

lemma decimal_digits_formatBits: "decimal_digits (formatBits u)"
  using formatBits_digits [of u] by (simp add: decimal_digits_def)

lemma Atoi_Itoa:
  assumes "- (2 ^ 63) \<le> v" and "v < 2 ^ 63"
  shows "Atoi (Itoa v) = Inr v"
proof (cases "v < 0")
  case True
  have "dec_from 0 (formatBits (nat (- v))) \<le> 2 ^ 63"
    using assms(1) True by (simp add: dec_from_formatBits nat_le_iff)
  with True show ?thesis
    unfolding Atoi_eq_ParseInt ParseInt_Inr_iff Itoa_def FormatInt_def
    by (intro exI [of _ "formatBits (nat (- v))"])
       (simp add: decimal_digits_formatBits dec_from_formatBits)
next
  case False
  have "dec_from 0 (formatBits (nat v)) < 2 ^ 63"
    using assms(2) False by (simp add: dec_from_formatBits nat_less_iff)
  with False show ?thesis
    unfolding Atoi_eq_ParseInt ParseInt_Inr_iff Itoa_def FormatInt_def
    by (intro exI [of _ "formatBits (nat v)"])
       (simp add: decimal_digits_formatBits dec_from_formatBits)
qed

lemma Atoi_range: "Atoi s = Inr v \<Longrightarrow> - (2 ^ 63) \<le> v \<and> v < 2 ^ 63"
  unfolding Atoi_eq_ParseInt ParseInt_Inr_iff by auto

section \<open>What each route does\<close>

lemma fold_update_prefix:
  "n \<le> length xs \<Longrightarrow>
   fold (\<lambda>i os. os[i := f (os ! i)]) [0..<n] xs = map f (take n xs) @ drop n xs"
proof (induction n)
  case 0
  show ?case by simp
next
  case (Suc n)
  then have n: "n < length xs" by simp
  then have IH: "fold (\<lambda>i os. os[i := f (os ! i)]) [0..<n] xs = map f (take n xs) @ drop n xs"
    using Suc.IH by simp
  have len: "length (map f (take n xs)) = n" using n by simp
  have nth: "(map f (take n xs) @ drop n xs) ! n = xs ! n"
    using n by (simp add: nth_append)
  have split: "drop n xs = xs ! n # drop (Suc n) xs"
    using n by (simp add: Cons_nth_drop_Suc)
  have upd: "(drop n xs)[0 := f (xs ! n)] = f (xs ! n) # drop (Suc n) xs"
    by (subst split) simp
  have tk: "map f (take (Suc n) xs) = map f (take n xs) @ [f (xs ! n)]"
    using n by (simp add: take_Suc_conv_app_nth)
  have "(map f (take n xs) @ drop n xs)[n := f (xs ! n)]
          = map f (take n xs) @ (drop n xs)[0 := f (xs ! n)]"
    using len by (simp add: list_update_append)
  also have "\<dots> = map f (take (Suc n) xs) @ drop (Suc n) xs"
    by (simp only: upd tk append_assoc append_Cons append_Nil)
  finally have step: "(map f (take n xs) @ drop n xs)[n := f (xs ! n)]
          = map f (take (Suc n) xs) @ drop (Suc n) xs" .
  have "fold (\<lambda>i os. os[i := f (os ! i)]) [0..<Suc n] xs
          = (map f (take n xs) @ drop n xs)[n := f ((map f (take n xs) @ drop n xs) ! n)]"
    using IH by simp
  with nth step show ?case by (simp only:)
qed

lemma set_all_Pending_map:
  "set_all_Pending xs = map (\<lambda>x. x\<lparr>Status := Pending\<rparr>) xs"
  unfolding set_all_Pending_def
  using fold_update_prefix [of "length xs" xs "\<lambda>x. x\<lparr>Status := Pending\<rparr>"] by simp

lemma PUT_order_unfold:
  "PUT_order svc c d =
     (case Body c of
        None \<Rightarrow> (AbortWithStatus StatusBadRequest, \<lparr>calls = [], db = d\<rparr>)
      | Some order \<Rightarrow>
          if OrderID order = [] then (AbortWithStatus StatusBadRequest, \<lparr>calls = [], db = d\<rparr>)
          else if Status order \<noteq> Processing \<and> Status order \<noteq> Complete
            then (AbortWithStatus StatusBadRequest, \<lparr>calls = [], db = d\<rparr>)
          else (case Atoi (OrderID order) of
                  Inl err \<Rightarrow> (AbortWithStatus StatusBadRequest, \<lparr>calls = [], db = d\<rparr>)
                | Inr ident \<Rightarrow>
                    (case UpdateOrder (repo svc) (order\<lparr>OrderID := Itoa ident\<rparr>) d of
                       (err, d') \<Rightarrow>
                         (case err of
                            Some e \<Rightarrow> AbortWithStatus StatusInternalServerError
                          | None \<Rightarrow> StatusCode StatusAccepted,
                          \<lparr>calls = [UpdateOrderCall (order\<lparr>OrderID := Itoa ident\<rparr>)], db = d'\<rparr>))))"
  by (simp add: PUT_order_def OrderMiddleware_def updateOrder_def call_UpdateOrder_def Let_def
           split: option.splits sum.splits prod.splits)

lemma GET_order_id_unfold:
  "GET_order_id svc c d =
     (case Atoi (Param c ''id'') of
        Inl err \<Rightarrow> (AbortWithStatus StatusBadRequest, \<lparr>calls = [], db = d\<rparr>)
      | Inr ident \<Rightarrow>
          (case GetOrder (repo svc) (FormatInt ident) d of
             (res, d') \<Rightarrow>
               (case res of
                  Inl err \<Rightarrow> AbortWithStatus StatusInternalServerError
                | Inr order \<Rightarrow> IndentedJSON StatusOK order,
                \<lparr>calls = [GetOrderCall (FormatInt ident)], db = d'\<rparr>)))"
  by (simp add: GET_order_id_def OrderMiddleware_def getOrder_def call_GetOrder_def Let_def Param_def
           split: option.splits sum.splits prod.splits)

lemma GET_order_fetch_queue_error:
  "GET_order_fetch svc (Inl err) c d =
     (AbortWithStatus StatusInternalServerError, \<lparr>calls = [], db = d\<rparr>)"
  by (simp add: GET_order_fetch_def OrderMiddleware_def fetchOrders_def)

lemma GET_order_fetch_empty:
  "GET_order_fetch svc (Inr []) c d =
     (case GetPendingOrders (repo svc) d of
        (res, d') \<Rightarrow>
          (case res of
             Inl err \<Rightarrow> AbortWithStatus StatusInternalServerError
           | Inr pendingOrders \<Rightarrow> IndentedJSON StatusOK pendingOrders,
           \<lparr>calls = [GetPendingOrdersCall], db = d'\<rparr>))"
  by (simp add: GET_order_fetch_def OrderMiddleware_def fetchOrders_def set_all_Pending_map
        call_GetPendingOrders_def split: option.splits sum.splits prod.splits)

lemma GET_order_fetch_batch:
  "pulled \<noteq> [] \<Longrightarrow>
   GET_order_fetch svc (Inr pulled) c d =
     (let batch = map (\<lambda>x. x\<lparr>Status := Pending\<rparr>) pulled
      in case InsertOrders (repo svc) batch d of
           (Some err, d1) \<Rightarrow>
             (AbortWithStatus StatusInternalServerError,
              \<lparr>calls = [InsertOrdersCall batch], db = d1\<rparr>)
         | (None, d1) \<Rightarrow>
             (case GetPendingOrders (repo svc) d1 of
                (res, d2) \<Rightarrow>
                  (case res of
                     Inl err \<Rightarrow> AbortWithStatus StatusInternalServerError
                   | Inr pendingOrders \<Rightarrow> IndentedJSON StatusOK pendingOrders,
                   \<lparr>calls = [InsertOrdersCall batch, GetPendingOrdersCall], db = d2\<rparr>)))"
  by (simp add: GET_order_fetch_def OrderMiddleware_def fetchOrders_def set_all_Pending_map
        call_GetPendingOrders_def call_InsertOrders_def Let_def
        split: option.splits sum.splits prod.splits)

section \<open>Properties of the storage backends\<close>

lemma store_create_Inr:
  "store_create r s = Inr s' \<Longrightarrow>
     stored_ids s' = stored_ids s @ [OrderID (doc r)] \<and> OrderID (doc r) \<notin> set (stored_ids s)
     \<and> available s' \<and> available s"
  by (auto simp: store_create_def stored_ids_def split: if_splits)

lemma store_create_DuplicateKey:
  "store_create r s = Inl DuplicateKey \<longleftrightarrow> available s \<and> OrderID (doc r) \<in> set (stored_ids s)"
  by (auto simp: store_create_def)

lemma store_create_Unavailable:
  "store_create r s = Inl Unavailable \<longleftrightarrow> \<not> available s"
  by (auto simp: store_create_def)

lemma doc_to_record [simp]: "doc (to_record b x) = x"
  by (simp add: to_record_def)

lemma insertOrders_unique:
  "unique_ids s \<Longrightarrow> unique_ids (snd (insertOrders b xs s))"
proof (induction xs arbitrary: s)
  case Nil
  then show ?case by simp
next
  case (Cons x xs)
  show ?case
  proof (cases "store_create (to_record b x) s")
    case (Inr s')
    from store_create_Inr [OF Inr] Cons.prems have "unique_ids s'"
      by (simp add: unique_ids_def)
    with Inr Cons.IH show ?thesis by simp
  next
    case (Inl e)
    with Cons show ?thesis by (cases e) simp_all
  qed
qed

lemma insertOrders_available:
  "available s \<Longrightarrow>
     fst (insertOrders b xs s) = None
   \<and> available (snd (insertOrders b xs s))
   \<and> set (stored_ids (snd (insertOrders b xs s))) = set (stored_ids s) \<union> OrderID ` set xs"
proof (induction xs arbitrary: s)
  case Nil
  then show ?case by simp
next
  case (Cons x xs)
  show ?case
  proof (cases "store_create (to_record b x) s")
    case (Inr s')
    from store_create_Inr [OF Inr]
    have ids: "stored_ids s' = stored_ids s @ [OrderID x]" and av: "available s'" by simp_all
    from Cons.IH [OF av] ids Inr show ?thesis by auto
  next
    case (Inl e)
    show ?thesis
    proof (cases e)
      case DuplicateKey
      with Inl have "OrderID x \<in> set (stored_ids s)"
        by (simp add: store_create_DuplicateKey)
      with Cons.IH [OF Cons.prems] Inl DuplicateKey show ?thesis by auto
    next
      case Unavailable
      with Inl Cons.prems show ?thesis by (simp add: store_create_Unavailable)
    qed
  qed
qed

lemma count_distinct:
  "distinct ids \<Longrightarrow> length (filter (\<lambda>i. i = ident) ids) = (if ident \<in> set ids then 1 else 0)"
  by (induction ids) auto

lemma count_id_unique:
  "unique_ids s \<Longrightarrow> count_id ident s = (if ident \<in> set (stored_ids s) then 1 else 0)"
  by (simp add: unique_ids_def count_id_def count_distinct)

lemma updateOrder_backend_ids:
  "stored_ids (snd (updateOrder_backend b x s)) = stored_ids s"
proof -
  have "map (\<lambda>r. OrderID (doc r))
          (map (\<lambda>r. if OrderID (doc r) = OrderID x \<and> partitionField r = partition_of b
                     then r\<lparr>doc := x\<rparr> else r) rs)
        = map (\<lambda>r. OrderID (doc r)) rs" for rs :: "'a StoredRecord list"
    by (induction rs) auto
  then show ?thesis
    by (simp add: updateOrder_backend_def stored_ids_def)
qed

lemma reads_keep_store:
  "snd (getPendingOrders b s) = s" "snd (getOrder_backend b ident s) = s"
  by (simp_all add: getPendingOrders_def getOrder_backend_def split: option.splits)

section \<open>What \<^verbatim>\<open>Atoi\<close> accepts\<close>

lemma status_values_distinct:
  "Pending \<noteq> Processing" "Pending \<noteq> Complete" "New \<noteq> Processing" "New \<noteq> Complete"
  "Processing \<noteq> Complete" "New \<noteq> Pending"
  by (simp_all add: New_def Pending_def Processing_def Complete_def)

lemma Atoi_accepts_iff: "(\<exists>v. Atoi s = Inr v) \<longleftrightarrow> signed_decimal_int64 s"
proof (cases s)
  case Nil
  then show ?thesis by (simp add: Atoi_eq_ParseInt ParseInt_def signed_decimal_int64_def)
next
  case (Cons c cs)
  show ?thesis
  proof
    assume "\<exists>v. Atoi s = Inr v"
    then obtain v where "ParseInt s = Inr v" by (auto simp: Atoi_eq_ParseInt)
    then obtain ds where dd: "decimal_digits ds" and
      alt: "(s = ds \<or> s = CHR ''+'' # ds) \<and> dec_from 0 ds < 2 ^ 63
            \<or> s = CHR ''-'' # ds \<and> dec_from 0 ds \<le> 2 ^ 63"
      unfolding ParseInt_Inr_iff by blast
    from dd obtain x xs where ds: "ds = x # xs" and x: "is_digit x"
      by (cases ds) (auto simp: decimal_digits_def)
    note ns = is_digit_not_sign [OF x]
    from alt dd ds ns Cons show "signed_decimal_int64 s"
      by (auto simp: signed_decimal_int64_def)
  next
    assume sd: "signed_decimal_int64 s"
    show "\<exists>v. Atoi s = Inr v"
    proof (cases "c = CHR ''-''")
      case True
      with sd Cons have "decimal_digits cs" "dec_from 0 cs \<le> 2 ^ 63"
        by (simp_all add: signed_decimal_int64_def)
      with True Cons have "ParseInt s = Inr (- int (dec_from 0 cs))"
        unfolding ParseInt_Inr_iff by (intro exI [of _ cs]) simp
      then show ?thesis by (auto simp: Atoi_eq_ParseInt)
    next
      case minus: False
      show ?thesis
      proof (cases "c = CHR ''+''")
        case True
        with sd Cons have "decimal_digits cs" "dec_from 0 cs < 2 ^ 63"
          by (simp_all add: signed_decimal_int64_def)
        with True Cons have "ParseInt s = Inr (int (dec_from 0 cs))"
          unfolding ParseInt_Inr_iff by (intro exI [of _ cs]) simp
        then show ?thesis by (auto simp: Atoi_eq_ParseInt)
      next
        case False
        with sd Cons minus have "decimal_digits s" "dec_from 0 s < 2 ^ 63"
          by (simp_all add: signed_decimal_int64_def)
        then have "ParseInt s = Inr (int (dec_from 0 s))"
          unfolding ParseInt_Inr_iff by (intro exI [of _ s]) simp
        then show ?thesis by (auto simp: Atoi_eq_ParseInt)
      qed
    qed
  qed
qed

lemma Atoi_rejects_iff: "isl (Atoi s) \<longleftrightarrow> \<not> signed_decimal_int64 s"
  using Atoi_accepts_iff [of s] by (cases "Atoi s") auto

lemma Atoi_empty: "Atoi [] = Inl ErrSyntax"
  by (simp add: Atoi_def ParseInt_def)

section \<open>Evaluation on concrete requests\<close>

text \<open>
  The unfolding rules with which the examples below are computed. The example requests
  run against the document-store backend over orders without payload.
\<close>

lemmas eval_Atoi = Atoi_def Atoi_fast_def byte_of_def

lemmas eval_Itoa = Itoa_def FormatInt_def formatBits.simps digit_char_def char_of_def bit_Suc_0_iff

lemmas eval_status = New_def Pending_def Processing_def Complete_def

lemmas eval_backend = backend_repo_def store_create_def to_record_def partition_of_def
  stored_ids_def scoped_def getPendingOrders_def getOrder_backend_def updateOrder_backend_def
  unique_ids_def count_id_def

section \<open>The claims\<close>

subsection \<open>Claim C1: idempotent intake\<close>

text \<open>
  Claim C1. For every backend, inserting a batch that carries an order and then a
  second batch that carries an order with the same order id leaves exactly one stored
  record with that id, and neither call fails: the second create meets the duplicate-key
  condition of the store, which \<open>insertOrders\<close> treats as success without effect. Every
  operation of the repository keeps the invariant that no two stored records share an
  order id; the two queries leave the store as it is.

  The backends are the contract of the spec (see above), not code of \<^verbatim>\<open>main.go\<close>. The
  store is assumed reachable for the two inserts; an unreachable store fails the call,
  and still keeps the invariant.
\<close>

theorem insertOrders_idempotent:
  assumes "available s" and "unique_ids s"
    and "x \<in> set xs" and "y \<in> set ys" and "OrderID y = OrderID x"
  shows "(case InsertOrders (backend_repo b) xs s of
            (e1, s1) \<Rightarrow>
              (case InsertOrders (backend_repo b) ys s1 of
                 (e2, s2) \<Rightarrow>
                   e1 = None \<and> e2 = None
                 \<and> count_id (OrderID x) s1 = 1 \<and> count_id (OrderID x) s2 = 1))
       \<and> (store_create (to_record b y) (snd (InsertOrders (backend_repo b) xs s)) = Inl DuplicateKey
          \<and> InsertOrders (backend_repo b) [y] (snd (InsertOrders (backend_repo b) xs s))
              = (None, snd (InsertOrders (backend_repo b) xs s)))
       \<and> unique_ids (snd (InsertOrders (backend_repo b) zs s))
       \<and> unique_ids (snd (UpdateOrder (backend_repo b) z s))
       \<and> snd (GetPendingOrders (backend_repo b) s) = s
       \<and> snd (GetOrder (backend_repo b) ident s) = s"
proof -
  obtain e1 s1 where r1: "insertOrders b xs s = (e1, s1)" by (cases "insertOrders b xs s")
  obtain e2 s2 where r2: "insertOrders b ys s1 = (e2, s2)" by (cases "insertOrders b ys s1")
  from insertOrders_available [OF assms(1), of b xs] r1
  have e1: "e1 = None" and av1: "available s1"
    and ids1: "set (stored_ids s1) = set (stored_ids s) \<union> OrderID ` set xs" by simp_all
  from insertOrders_unique [OF assms(2), of b xs] r1 have u1: "unique_ids s1" by simp
  from insertOrders_available [OF av1, of b ys] r2
  have e2: "e2 = None"
    and ids2: "set (stored_ids s2) = set (stored_ids s1) \<union> OrderID ` set ys" by simp_all
  from insertOrders_unique [OF u1, of b ys] r2 have u2: "unique_ids s2" by simp
  from ids1 assms(3) have in1: "OrderID x \<in> set (stored_ids s1)" by auto
  with ids2 have in2: "OrderID x \<in> set (stored_ids s2)" by auto
  have c1: "count_id (OrderID x) s1 = 1" using u1 in1 by (simp add: count_id_unique)
  have c2: "count_id (OrderID x) s2 = 1" using u2 in2 by (simp add: count_id_unique)
  have dup: "store_create (to_record b y) s1 = Inl DuplicateKey"
    using av1 in1 assms(5) by (simp add: store_create_DuplicateKey)
  then have noop: "insertOrders b [y] s1 = (None, s1)" by simp
  have pres: "unique_ids (snd (insertOrders b zs s))"
    using assms(2) by (rule insertOrders_unique)
  have pres': "unique_ids (snd (updateOrder_backend b z s))"
    using assms(2) by (simp add: unique_ids_def updateOrder_backend_ids)
  from r1 r2 e1 e2 c1 c2 dup noop pres pres' show ?thesis
    by (simp add: backend_repo_def reads_keep_store)
qed

text \<open>
  The partitioned backend on an empty store: the batch of orders 1 and 2, then order 1
  again.
\<close>

theorem insertOrders_idempotent_witness:
  "available (example_store [])
   \<and> unique_ids (example_store [])
   \<and> InsertOrders (backend_repo (PartitionedStore ''tenant'' ''store-1''))
        [example_order ''1'' Pending, example_order ''2'' Pending] (example_store [])
      = (None,
         \<lparr>records =
            [\<lparr>doc = example_order ''1'' Pending, partitionField = Some (''tenant'', ''store-1'')\<rparr>,
             \<lparr>doc = example_order ''2'' Pending, partitionField = Some (''tenant'', ''store-1'')\<rparr>],
          available = True\<rparr>)
   \<and> InsertOrders (backend_repo (PartitionedStore ''tenant'' ''store-1''))
        [example_order ''1'' Pending]
        \<lparr>records =
           [\<lparr>doc = example_order ''1'' Pending, partitionField = Some (''tenant'', ''store-1'')\<rparr>,
            \<lparr>doc = example_order ''2'' Pending, partitionField = Some (''tenant'', ''store-1'')\<rparr>],
         available = True\<rparr>
      = (None,
         \<lparr>records =
            [\<lparr>doc = example_order ''1'' Pending, partitionField = Some (''tenant'', ''store-1'')\<rparr>,
             \<lparr>doc = example_order ''2'' Pending, partitionField = Some (''tenant'', ''store-1'')\<rparr>],
          available = True\<rparr>)
   \<and> count_id ''1''
        \<lparr>records =
           [\<lparr>doc = example_order ''1'' Pending, partitionField = Some (''tenant'', ''store-1'')\<rparr>,
            \<lparr>doc = example_order ''2'' Pending, partitionField = Some (''tenant'', ''store-1'')\<rparr>],
         available = True\<rparr> = 1"
  using insertOrders_idempotent
      [where s = "example_store []" and b = "PartitionedStore ''tenant'' ''store-1''"
         and xs = "[example_order ''1'' Pending, example_order ''2'' Pending]"
         and ys = "[example_order ''1'' Pending]"
         and x = "example_order ''1'' Pending" and y = "example_order ''1'' Pending"]
  by (simp add: eval_backend)

subsection \<open>Claim C2: the status gate of \<^verbatim>\<open>PUT /order\<close>\<close>

text \<open>
  Claim C2. A \<^verbatim>\<open>PUT /order\<close> request whose body binds to an order and whose status is
  neither Processing nor Complete (Pending and New in particular) is answered with 400,
  no repository method is invoked and the store is unchanged. When the order id passes
  its own checks, the update is issued if and only if the status is Processing or
  Complete.
\<close>

theorem updateOrder_status_gate:
  assumes "Body c = Some order"
  shows "(Status order \<noteq> Processing \<and> Status order \<noteq> Complete \<longrightarrow>
            PUT_order svc c d = (AbortWithStatus StatusBadRequest, \<lparr>calls = [], db = d\<rparr>))
       \<and> (Status order = Pending \<or> Status order = New \<longrightarrow>
            PUT_order svc c d = (AbortWithStatus StatusBadRequest, \<lparr>calls = [], db = d\<rparr>))
       \<and> (OrderID order \<noteq> [] \<and> Atoi (OrderID order) = Inr ident \<longrightarrow>
            (calls (snd (PUT_order svc c d)) = [UpdateOrderCall (order\<lparr>OrderID := Itoa ident\<rparr>)]
               \<longleftrightarrow> Status order = Processing \<or> Status order = Complete))
       \<and> StatusBadRequest = 400"
  using assms status_values_distinct
  by (auto simp: PUT_order_unfold StatusBadRequest_def split: prod.splits)

text \<open>
  Order 12 with status Pending is refused; the same order with status Complete reaches
  the repository.
\<close>

theorem updateOrder_status_gate_witness:
  "Body (put_request (example_order ''12'' Pending)) = Some (example_order ''12'' Pending)
   \<and> PUT_order example_service (put_request (example_order ''12'' Pending)) (example_store [])
      = (AbortWithStatus 400, \<lparr>calls = [], db = example_store []\<rparr>)
   \<and> Atoi ''12'' = Inr 12
   \<and> calls (snd (PUT_order example_service (put_request (example_order ''12'' Complete))
                   (example_store [])))
      = [UpdateOrderCall (example_order ''12'' Complete)]"
  using updateOrder_status_gate
      [where c = "put_request (example_order ''12'' Pending)"
         and order = "example_order ''12'' Pending"
         and svc = example_service and d = "example_store []" and ident = 12]
    updateOrder_status_gate
      [where c = "put_request (example_order ''12'' Complete)"
         and order = "example_order ''12'' Complete"
         and svc = example_service and d = "example_store []" and ident = 12]
  by (simp add: eval_status eval_Atoi eval_Itoa)

subsection \<open>Claim C3: which order ids \<^verbatim>\<open>PUT /order\<close> accepts\<close>

text \<open>
  Claim C3, as the code has it. The handler validates the id with \<^verbatim>\<open>strconv.Atoi\<close>,
  which reads an optional sign before the digits. So: an order id that is empty, or is
  not an optional \<^verbatim>\<open>+\<close> or \<^verbatim>\<open>-\<close> followed by decimal digits with a value in the
  signed 64-bit range, is answered with 400, with no repository call and the store
  unchanged; only ids of that form reach the repository update, and they do whenever
  the status is Processing or Complete. Digit-only ids below \<open>2 ^ 63\<close> are of that
  form; the empty id is not.
\<close>

theorem updateOrder_id_validation:
  assumes "Body c = Some order"
  shows "(\<not> signed_decimal_int64 (OrderID order) \<longrightarrow>
            PUT_order svc c d = (AbortWithStatus StatusBadRequest, \<lparr>calls = [], db = d\<rparr>))
       \<and> (calls (snd (PUT_order svc c d)) \<noteq> [] \<longrightarrow> signed_decimal_int64 (OrderID order))
       \<and> (signed_decimal_int64 (OrderID order) \<and>
            (Status order = Processing \<or> Status order = Complete) \<longrightarrow>
            (\<exists>ident. Atoi (OrderID order) = Inr ident \<and>
               calls (snd (PUT_order svc c d)) = [UpdateOrderCall (order\<lparr>OrderID := Itoa ident\<rparr>)]))
       \<and> (decimal_digits (OrderID order) \<and> dec_from 0 (OrderID order) < 2 ^ 63 \<longrightarrow>
            signed_decimal_int64 (OrderID order))
       \<and> \<not> signed_decimal_int64 []
       \<and> StatusBadRequest = 400"
proof -
  have rej: "\<not> signed_decimal_int64 (OrderID order) \<longrightarrow>
            PUT_order svc c d = (AbortWithStatus StatusBadRequest, \<lparr>calls = [], db = d\<rparr>)"
    using assms Atoi_rejects_iff [of "OrderID order"]
    by (auto simp: PUT_order_unfold split: sum.splits)
  then have only: "calls (snd (PUT_order svc c d)) \<noteq> [] \<longrightarrow> signed_decimal_int64 (OrderID order)"
    by auto
  have acc: "signed_decimal_int64 (OrderID order) \<and>
            (Status order = Processing \<or> Status order = Complete) \<longrightarrow>
            (\<exists>ident. Atoi (OrderID order) = Inr ident \<and>
               calls (snd (PUT_order svc c d)) = [UpdateOrderCall (order\<lparr>OrderID := Itoa ident\<rparr>)])"
  proof (intro impI)
    assume h: "signed_decimal_int64 (OrderID order) \<and>
            (Status order = Processing \<or> Status order = Complete)"
    then obtain ident where a: "Atoi (OrderID order) = Inr ident"
      using Atoi_accepts_iff [of "OrderID order"] by blast
    from h have ne: "OrderID order \<noteq> []" by (auto simp: signed_decimal_int64_def)
    from assms h a ne
    have "calls (snd (PUT_order svc c d)) = [UpdateOrderCall (order\<lparr>OrderID := Itoa ident\<rparr>)]"
      by (auto simp: PUT_order_unfold split: prod.splits)
    with a show "\<exists>ident. Atoi (OrderID order) = Inr ident \<and>
               calls (snd (PUT_order svc c d)) = [UpdateOrderCall (order\<lparr>OrderID := Itoa ident\<rparr>)]"
      by blast
  qed
  have dig: "decimal_digits (OrderID order) \<and> dec_from 0 (OrderID order) < 2 ^ 63 \<longrightarrow>
            signed_decimal_int64 (OrderID order)"
  proof (intro impI)
    assume h: "decimal_digits (OrderID order) \<and> dec_from 0 (OrderID order) < 2 ^ 63"
    then obtain x xs where s: "OrderID order = x # xs" and x: "is_digit x"
      by (cases "OrderID order") (auto simp: decimal_digits_def)
    from is_digit_not_sign [OF x] h s show "signed_decimal_int64 (OrderID order)"
      by (simp add: signed_decimal_int64_def)
  qed
  have "\<not> signed_decimal_int64 []" by (simp add: signed_decimal_int64_def)
  with rej only acc dig show ?thesis by (simp add: StatusBadRequest_def)
qed

text \<open>
  The id \<^verbatim>\<open>-5\<close> is of the accepted form and reaches the repository; \<^verbatim>\<open>12a\<close> is not
  and is answered with 400.
\<close>

theorem updateOrder_id_validation_witness:
  "signed_decimal_int64 ''-5''
   \<and> calls (snd (PUT_order example_service (put_request (example_order ''-5'' Processing))
                   (example_store [])))
      = [UpdateOrderCall (example_order ''-5'' Processing)]
   \<and> \<not> signed_decimal_int64 ''12a''
   \<and> PUT_order example_service (put_request (example_order ''12a'' Processing)) (example_store [])
      = (AbortWithStatus 400, \<lparr>calls = [], db = example_store []\<rparr>)"
  using updateOrder_id_validation
      [where c = "put_request (example_order ''-5'' Processing)"
         and order = "example_order ''-5'' Processing"
         and svc = example_service and d = "example_store []"]
    updateOrder_id_validation
      [where c = "put_request (example_order ''12a'' Processing)"
         and order = "example_order ''12a'' Processing"
         and svc = example_service and d = "example_store []"]
  by (simp add: eval_Atoi eval_Itoa eval_status signed_decimal_int64_def decimal_digits_def
        is_digit_def dec_from_def digit_val_def)

text \<open>
  The claim as the spec words it (an id with any character that is not a digit is
  refused with 400 and only digit-only ids reach the repository) fails on \<^verbatim>\<open>-5\<close>:
  with status Processing, the update is issued for the id \<^verbatim>\<open>-5\<close> and, the order being
  stored, the response is 202.
\<close>

theorem updateOrder_signed_id_counterexample:
  "\<not> list_all is_digit ''-5''
   \<and> PUT_order \<lparr>repo = backend_repo DocumentStore\<rparr>
        \<lparr>Keys = Map.empty, Params = Map.empty,
         Body = Some \<lparr>OrderID = ''-5'', Status = Processing, Payload = ()\<rparr>\<rparr>
        \<lparr>records = [\<lparr>doc = \<lparr>OrderID = ''-5'', Status = Pending, Payload = ()\<rparr>,
                     partitionField = None\<rparr>],
         available = True\<rparr>
      = (StatusCode 202,
         \<lparr>calls = [UpdateOrderCall \<lparr>OrderID = ''-5'', Status = Processing, Payload = ()\<rparr>],
          db = \<lparr>records = [\<lparr>doc = \<lparr>OrderID = ''-5'', Status = Processing, Payload = ()\<rparr>,
                            partitionField = None\<rparr>],
                available = True\<rparr>\<rparr>)"
  by (simp add: PUT_order_unfold StatusAccepted_def is_digit_def
        eval_Atoi eval_Itoa eval_status eval_backend)

subsection \<open>Claim C4: the id is canonicalized before the update\<close>

text \<open>
  Claim C4. When a \<^verbatim>\<open>PUT /order\<close> request passes validation, the one repository call
  is \<^verbatim>\<open>UpdateOrder\<close> on the order whose id has been replaced by the decimal rendering
  of the parsed integer, and the store the request leaves is the one that call returns.
  The rendering parses back to the same integer, and the id \<^verbatim>\<open>007\<close> is rendered as
  \<^verbatim>\<open>7\<close>.
\<close>

theorem updateOrder_canonical_id:
  assumes "Body c = Some order"
    and "OrderID order \<noteq> []"
    and "Status order = Processing \<or> Status order = Complete"
    and "Atoi (OrderID order) = Inr ident"
  shows "calls (snd (PUT_order svc c d)) = [UpdateOrderCall (order\<lparr>OrderID := Itoa ident\<rparr>)]
       \<and> snd (UpdateOrder (repo svc) (order\<lparr>OrderID := Itoa ident\<rparr>) d) = db (snd (PUT_order svc c d))
       \<and> Atoi (Itoa ident) = Inr ident
       \<and> (OrderID order = ''007'' \<longrightarrow> Itoa ident = ''7'')"
proof -
  have run: "calls (snd (PUT_order svc c d)) = [UpdateOrderCall (order\<lparr>OrderID := Itoa ident\<rparr>)]
       \<and> snd (UpdateOrder (repo svc) (order\<lparr>OrderID := Itoa ident\<rparr>) d) = db (snd (PUT_order svc c d))"
    using assms by (auto simp: PUT_order_unfold split: prod.splits)
  have rt: "Atoi (Itoa ident) = Inr ident"
    using Atoi_range [OF assms(4)] by (simp add: Atoi_Itoa)
  have "Atoi ''007'' = Inr 7"
    by (simp add: Atoi_def Atoi_fast_def byte_of_def)
  with assms(4) have "OrderID order = ''007'' \<longrightarrow> ident = 7" by auto
  moreover have "Itoa 7 = ''7''"
    by (simp add: Itoa_def FormatInt_def formatBits.simps digit_char_def char_of_def bit_Suc_0_iff)
  ultimately have "OrderID order = ''007'' \<longrightarrow> Itoa ident = ''7''" by auto
  with run rt show ?thesis by blast
qed

text \<open>
  An update of \<^verbatim>\<open>007\<close> to Processing changes the stored order 7.
\<close>

theorem updateOrder_canonical_id_witness:
  "Atoi ''007'' = Inr 7
   \<and> calls (snd (PUT_order example_service (put_request (example_order ''007'' Processing))
                   (example_store [example_order ''7'' Pending])))
      = [UpdateOrderCall (example_order ''7'' Processing)]
   \<and> db (snd (PUT_order example_service (put_request (example_order ''007'' Processing))
                (example_store [example_order ''7'' Pending])))
      = example_store [example_order ''7'' Processing]"
  using updateOrder_canonical_id
      [where c = "put_request (example_order ''007'' Processing)"
         and order = "example_order ''007'' Processing"
         and svc = example_service
         and d = "example_store [example_order ''7'' Pending]" and ident = 7]
  by (simp add: eval_Atoi eval_Itoa eval_status eval_backend)

subsection \<open>Claim C5: every pulled order is stamped Pending before the insert\<close>



subsection \<open>Claim C6: the response is the list of pending orders\<close>

text \<open>
  Claim C6. When the queue delivered a batch and either the batch is empty or
  \<^verbatim>\<open>InsertOrders\<close> succeeded, the handler calls \<^verbatim>\<open>GetPendingOrders\<close> on the store as
  the insert left it, as its last repository call. The list that call returns is the
  body of a 200 response, whole; if the call fails instead, the response is 500.
\<close>

theorem fetchOrders_returns_pending:
  assumes "pulled = [] \<and> d1 = d \<or>
           pulled \<noteq> [] \<and>
           InsertOrders (repo svc) (map (\<lambda>x. x\<lparr>Status := Pending\<rparr>) pulled) d = (None, d1)"
  shows "(GetPendingOrders (repo svc) d1 = (Inr pendingOrders, d2) \<longrightarrow>
            GET_order_fetch svc (Inr pulled) c d =
              (IndentedJSON StatusOK pendingOrders,
               \<lparr>calls = (if pulled = [] then []
                          else [InsertOrdersCall (map (\<lambda>x. x\<lparr>Status := Pending\<rparr>) pulled)])
                         @ [GetPendingOrdersCall],
                db = d2\<rparr>))
       \<and> (GetPendingOrders (repo svc) d1 = (Inl err, d2) \<longrightarrow>
            GET_order_fetch svc (Inr pulled) c d =
              (AbortWithStatus StatusInternalServerError,
               \<lparr>calls = (if pulled = [] then []
                          else [InsertOrdersCall (map (\<lambda>x. x\<lparr>Status := Pending\<rparr>) pulled)])
                         @ [GetPendingOrdersCall],
                db = d2\<rparr>))
       \<and> last (calls (snd (GET_order_fetch svc (Inr pulled) c d))) = GetPendingOrdersCall
       \<and> StatusOK = 200 \<and> StatusInternalServerError = 500"
proof (cases "pulled = []")
  case True
  with assms show ?thesis
    by (auto simp: GET_order_fetch_empty StatusOK_def StatusInternalServerError_def
        split: prod.splits sum.splits)
next
  case False
  with assms show ?thesis
    by (auto simp: GET_order_fetch_batch Let_def StatusOK_def StatusInternalServerError_def
        split: prod.splits sum.splits)
qed

text \<open>
  An empty batch over a store with one pending order, and a batch of two orders over an
  empty store.
\<close>

theorem fetchOrders_returns_pending_witness:
  "GET_order_fetch example_service (Inr []) fetch_request
     (example_store [example_order ''3'' Pending, example_order ''4'' Complete])
     = (IndentedJSON 200 [example_order ''3'' Pending],
        \<lparr>calls = [GetPendingOrdersCall],
         db = example_store [example_order ''3'' Pending, example_order ''4'' Complete]\<rparr>)
   \<and> InsertOrders (repo example_service)
        (map (\<lambda>x. x\<lparr>Status := Pending\<rparr>) [example_order ''1'' Complete, example_order ''2'' New])
        (example_store [])
     = (None, example_store [example_order ''1'' Pending, example_order ''2'' Pending])
   \<and> GET_order_fetch example_service
        (Inr [example_order ''1'' Complete, example_order ''2'' New])
        fetch_request (example_store [])
     = (IndentedJSON 200 [example_order ''1'' Pending, example_order ''2'' Pending],
        \<lparr>calls = [InsertOrdersCall [example_order ''1'' Pending, example_order ''2'' Pending],
                  GetPendingOrdersCall],
         db = example_store [example_order ''1'' Pending, example_order ''2'' Pending]\<rparr>)"
proof -
  have no_batch:
    "GET_order_fetch example_service (Inr []) fetch_request
       (example_store [example_order ''3'' Pending, example_order ''4'' Complete])
     = (IndentedJSON 200 [example_order ''3'' Pending],
        \<lparr>calls = [GetPendingOrdersCall],
         db = example_store [example_order ''3'' Pending, example_order ''4'' Complete]\<rparr>)"
    using fetchOrders_returns_pending
      [where svc = example_service and pulled = "[]" and c = fetch_request
         and d = "example_store [example_order ''3'' Pending, example_order ''4'' Complete]"
         and ?d1.0 = "example_store [example_order ''3'' Pending, example_order ''4'' Complete]"
         and pendingOrders = "[example_order ''3'' Pending]"
         and ?d2.0 = "example_store [example_order ''3'' Pending, example_order ''4'' Complete]"]
    by (simp add: StatusOK_def eval_backend eval_status)
  have inserted:
    "InsertOrders (repo example_service)
       (map (\<lambda>x. x\<lparr>Status := Pending\<rparr>) [example_order ''1'' Complete, example_order ''2'' New])
       (example_store [])
     = (None, example_store [example_order ''1'' Pending, example_order ''2'' Pending])"
    by (simp add: eval_backend eval_status)
  have batch:
    "GET_order_fetch example_service
       (Inr [example_order ''1'' Complete, example_order ''2'' New])
       fetch_request (example_store [])
     = (IndentedJSON 200 [example_order ''1'' Pending, example_order ''2'' Pending],
        \<lparr>calls = [InsertOrdersCall [example_order ''1'' Pending, example_order ''2'' Pending],
                  GetPendingOrdersCall],
         db = example_store [example_order ''1'' Pending, example_order ''2'' Pending]\<rparr>)"
    using fetchOrders_returns_pending
      [where svc = example_service
         and pulled = "[example_order ''1'' Complete, example_order ''2'' New]"
         and c = fetch_request and d = "example_store []"
         and ?d1.0 = "example_store [example_order ''1'' Pending, example_order ''2'' Pending]"
         and pendingOrders = "[example_order ''1'' Pending, example_order ''2'' Pending]"
         and ?d2.0 = "example_store [example_order ''1'' Pending, example_order ''2'' Pending]"]
    by (simp add: StatusOK_def eval_backend eval_status)
  from no_batch inserted batch show ?thesis by (intro conjI)
qed

subsection \<open>Claim C7: one insert for a non-empty batch, fatal on error\<close>



subsection \<open>Claim C8: validation comes before any write\<close>

text \<open>
  Claim C8. If the body of a \<^verbatim>\<open>PUT /order\<close> request does not bind, or the order id is
  empty, or the status is neither Processing nor Complete, or \<^verbatim>\<open>Atoi\<close> fails on the
  order id, the response is 400, no repository method is invoked and the store is
  unchanged.
\<close>

theorem updateOrder_validation_before_write:
  assumes "Body c = None \<or>
           (\<exists>order. Body c = Some order \<and>
              (OrderID order = [] \<or>
               (Status order \<noteq> Processing \<and> Status order \<noteq> Complete) \<or>
               isl (Atoi (OrderID order))))"
  shows "PUT_order svc c d = (AbortWithStatus StatusBadRequest, \<lparr>calls = [], db = d\<rparr>)
         \<and> StatusBadRequest = 400"
  using assms
  by (auto simp: PUT_order_unfold StatusBadRequest_def split: sum.splits)

text \<open>
  The id \<^verbatim>\<open>12a\<close> does not parse.
\<close>

theorem updateOrder_validation_before_write_witness:
  "isl (Atoi ''12a'')
   \<and> PUT_order example_service (put_request (example_order ''12a'' Processing)) (example_store [])
      = (AbortWithStatus 400, \<lparr>calls = [], db = example_store []\<rparr>)
   \<and> PUT_order example_service fetch_request (example_store [])
      = (AbortWithStatus 400, \<lparr>calls = [], db = example_store []\<rparr>)"
  using updateOrder_validation_before_write
      [where c = "put_request (example_order ''12a'' Processing)"
         and svc = example_service and d = "example_store []"]
    updateOrder_validation_before_write
      [where c = fetch_request and svc = example_service and d = "example_store []"]
  by (simp add: eval_Atoi)

subsection \<open>Claim C9: the responses of \<^verbatim>\<open>GET /order/:id\<close>\<close>

text \<open>
  Claim C9. If \<^verbatim>\<open>Atoi\<close> fails on the path parameter, the response is 400 and the
  repository is not queried. If the lookup returns an error, whichever it is, the
  response is 500. Otherwise the response is 200 with the order found.
\<close>

theorem getOrder_responses:
  "(isl (Atoi (Param c ''id'')) \<longrightarrow>
      GET_order_id svc c d = (AbortWithStatus StatusBadRequest, \<lparr>calls = [], db = d\<rparr>))
 \<and> (Atoi (Param c ''id'') = Inr ident \<and> GetOrder (repo svc) (FormatInt ident) d = (Inl err, d') \<longrightarrow>
      GET_order_id svc c d =
        (AbortWithStatus StatusInternalServerError, \<lparr>calls = [GetOrderCall (FormatInt ident)], db = d'\<rparr>))
 \<and> (Atoi (Param c ''id'') = Inr ident \<and> GetOrder (repo svc) (FormatInt ident) d = (Inr order, d') \<longrightarrow>
      GET_order_id svc c d =
        (IndentedJSON StatusOK order, \<lparr>calls = [GetOrderCall (FormatInt ident)], db = d'\<rparr>))
 \<and> StatusBadRequest = 400 \<and> StatusInternalServerError = 500 \<and> StatusOK = 200"
  by (auto simp: GET_order_id_unfold StatusBadRequest_def StatusInternalServerError_def StatusOK_def
      split: sum.splits)

text \<open>
  The parameter \<^verbatim>\<open>abc\<close>; order 7 looked up in an empty store, where the lookup
  fails with not-found and the response is 500; and order 7 looked up where it is stored.
\<close>

theorem getOrder_responses_witness:
  "isl (Atoi ''abc'')
   \<and> GET_order_id example_service (get_request ''abc'') (example_store [])
      = (AbortWithStatus 400, \<lparr>calls = [], db = example_store []\<rparr>)
   \<and> GetOrder (repo example_service) ''7'' (example_store []) = (Inl NotFound, example_store [])
   \<and> GET_order_id example_service (get_request ''7'') (example_store [])
      = (AbortWithStatus 500, \<lparr>calls = [GetOrderCall ''7''], db = example_store []\<rparr>)
   \<and> GET_order_id example_service (get_request ''7'')
        (example_store [example_order ''7'' Processing])
      = (IndentedJSON 200 (example_order ''7'' Processing),
         \<lparr>calls = [GetOrderCall ''7''], db = example_store [example_order ''7'' Processing]\<rparr>)"
  using getOrder_responses
      [where c = "get_request ''abc''" and svc = example_service and d = "example_store []"]
    getOrder_responses
      [where c = "get_request ''7''" and svc = example_service and d = "example_store []"
         and ident = 7 and err = NotFound and d' = "example_store []"]
    getOrder_responses
      [where c = "get_request ''7''" and svc = example_service
         and d = "example_store [example_order ''7'' Processing]" and ident = 7
         and order = "example_order ''7'' Processing"
         and d' = "example_store [example_order ''7'' Processing]"]
  by (simp add: Param_def eval_Atoi FormatInt_def formatBits.simps digit_char_def char_of_def
        bit_Suc_0_iff eval_backend)

subsection \<open>Claim C10: the lookup uses the rendered id\<close>



end
